theory Spec2Isabelle
  imports Main "HOL-Library.Word"
begin

section \<open>The low memory killer (drivers/staging/android/lowmemorykiller.c)\<close>

text \<open>
  The driver is built for 32-bit ARM: \<open>int\<close>, \<open>unsigned\<close>, \<open>uint32_t\<close>,
  \<open>size_t\<close> and \<open>unsigned long\<close> are all 32 bits wide. A C value of any of these
  types is a \<open>32 word\<close>; signed comparisons of the source are \<open><s\<close> and \<open>\<le>s\<close>,
  unsigned ones are \<open><\<close> and \<open>\<le>\<close>, and \<open>sint\<close> reads a word as a C \<open>int\<close>.
  The \<open>lowmem_print\<close> calls, the \<open>banner\<close> counter that only gates one of them, and
  the locks are left out: they change no value that the function returns or stores.
\<close>

type_synonym c_int = "32 word"
type_synonym c_uint = "32 word"
type_synonym c_ulong = "32 word"

subsection \<open>Data\<close>

text \<open>A task is identified by the address of its \<open>task_struct\<close>.\<close>

type_synonym task_ptr = nat

record mm_struct =
  rss :: c_ulong

record signal_struct =
  oom_adj :: c_int

record task_struct =
  task :: task_ptr
  pid :: c_int
  mm :: "mm_struct option"
  signal :: "signal_struct option"

datatype zone_stat_item =
  NR_FREE_PAGES | NR_FILE_PAGES | NR_SHMEM
  | NR_ACTIVE_ANON | NR_ACTIVE_FILE | NR_INACTIVE_ANON | NR_INACTIVE_FILE

text \<open>
  What the kernel headers define and \<open>src/\<close> does not hold: the constants
  \<open>PAGE_SIZE\<close>, \<open>HZ\<close> and \<open>OOM_ADJUST_MAX\<close> and the jiffies comparison
  \<open>time_before_eq\<close>. They are parameters of the model.
\<close>

record kernel =
  PAGE_SIZE :: c_ulong
  HZ :: c_ulong
  OOM_ADJUST_MAX :: c_int
  time_before_eq :: "c_ulong \<Rightarrow> c_ulong \<Rightarrow> bool"

text \<open>
  What one invocation reads from the rest of the kernel: the page counters, the tick
  counter, the process list that \<open>for_each_process\<close> walks, and whether the atomic
  allocation of the histogram buffer succeeded.
\<close>

record host =
  global_page_state :: "zone_stat_item \<Rightarrow> c_ulong"
  jiffies :: c_ulong
  processes :: "task_struct list"
  kzalloc_ok :: bool

text \<open>The module parameters. The two arrays have \<open>LOWMEM_ADJ_SLOTS\<close> slots each.\<close>

definition LOWMEM_ADJ_SLOTS :: nat where
  "LOWMEM_ADJ_SLOTS = 12"

record lowmem_config =
  lowmem_adj :: "c_int list"
  lowmem_adj_size :: c_int
  lowmem_minfree :: "c_uint list"
  lowmem_minfree_size :: c_int
  lowmem_multiplier :: c_uint
  lowmem_oldmethod :: c_int

text \<open>The static variables that persist between invocations.\<close>

record lowmem_state =
  lowmem_deathpending :: "task_ptr option"
  lowmem_deathpending_timeout :: c_ulong

subsection \<open>The exit notification\<close>

definition task_notify_func :: "lowmem_state \<Rightarrow> task_ptr \<Rightarrow> lowmem_state" where
  "task_notify_func st t =
     (if Some t = lowmem_deathpending st then st\<lparr>lowmem_deathpending := None\<rparr> else st)"

subsection \<open>The threshold lookup\<close>

text \<open>
  \<open>array_size\<close> starts at \<open>ARRAY_SIZE(lowmem_adj)\<close> and is lowered to each of the
  two size parameters in turn (signed comparisons).
\<close>

definition array_size :: "lowmem_config \<Rightarrow> c_int" where
  "array_size cfg =
     (let a = word_of_nat LOWMEM_ADJ_SLOTS;
          a = (if lowmem_adj_size cfg <s a then lowmem_adj_size cfg else a);
          a = (if lowmem_minfree_size cfg <s a then lowmem_minfree_size cfg else a)
      in a)"

text \<open>
  The loop \<open>for (i = 0; i < array_size; i++)\<close> with its \<open>break\<close>. The index runs
  from 0 and stays below \<open>array_size\<close>, which is at most 12, so it is a \<open>nat\<close>.
  \<open>other_free\<close> and \<open>other_file\<close> are \<open>int\<close>, \<open>lowmem_minfree[i]\<close> is
  \<open>size_t\<close>: C compares them as unsigned values.
\<close>

function min_adj_loop ::
  "lowmem_config \<Rightarrow> c_int \<Rightarrow> c_int \<Rightarrow> c_int \<Rightarrow> nat \<Rightarrow> c_int \<Rightarrow> c_int" where
  "min_adj_loop cfg other_free other_file n i min_adj =
     (if int i < sint n then
        (if other_free < lowmem_minfree cfg ! i \<and> other_file < lowmem_minfree cfg ! i
         then lowmem_adj cfg ! i
         else min_adj_loop cfg other_free other_file n (Suc i) min_adj)
      else min_adj)"
  by pat_completeness auto
termination
  by (relation "measure (\<lambda>(cfg, other_free, other_file, n, i, min_adj). nat (sint n) - i)") auto

definition other_free_of :: "host \<Rightarrow> c_int" where
  "other_free_of h = global_page_state h NR_FREE_PAGES"

definition other_file_of :: "host \<Rightarrow> c_int" where
  "other_file_of h = global_page_state h NR_FILE_PAGES - global_page_state h NR_SHMEM"

definition min_adj_of :: "kernel \<Rightarrow> lowmem_config \<Rightarrow> c_int \<Rightarrow> c_int \<Rightarrow> c_int" where
  "min_adj_of K cfg other_free other_file =
     min_adj_loop cfg other_free other_file (array_size cfg) 0 (OOM_ADJUST_MAX K + 1)"

definition rem_of :: "host \<Rightarrow> c_int" where
  "rem_of h =
     global_page_state h NR_ACTIVE_ANON + global_page_state h NR_ACTIVE_FILE
     + global_page_state h NR_INACTIVE_ANON + global_page_state h NR_INACTIVE_FILE"

subsection \<open>The scan of the process list\<close>

text \<open>
  Modelled from the spec: the kernel's \<open>abs\<close> macro (linux/kernel.h, not under
  \<open>src/\<close>), the spec's \<open>|requestedPages*multiplier - footprintPages|\<close>: the
  argument is read as a signed value and negated when it is negative.
\<close>

definition abs_c :: "c_uint \<Rightarrow> c_uint" where
  "abs_c x = (if x <s 0 then - x else x)"

text \<open>
  The variables of \<open>lowmem_shrink\<close> that the loop over the processes reads and
  writes. \<open>ooms_seen\<close> is \<open>None\<close> when \<open>kzalloc\<close> returned \<open>NULL\<close>. C leaves a
  write outside the 20-element buffer undefined; the model sets \<open>ooms_oob\<close> when
  the source performs one, changes nothing else, and goes on.
\<close>

record scan_state =
  selected :: "task_struct option"
  selected_tasksize :: c_int
  selected_oom_adj :: c_int
  lowmem_delta :: c_uint
  ooms_seen :: "c_int list option"
  ooms_oob :: bool

text \<open>\<open>if (ooms_seen && (oom_adj > -1)) ooms_seen[oom_adj]++;\<close>\<close>

definition count_oom :: "c_int \<Rightarrow> scan_state \<Rightarrow> scan_state" where
  "count_oom oa s =
     (case ooms_seen s of
        None \<Rightarrow> s
      | Some buf \<Rightarrow>
          if -1 <s oa then
            (if nat (sint oa) < length buf
             then s\<lparr>ooms_seen := Some (buf[nat (sint oa) := buf ! nat (sint oa) + 1])\<rparr>
             else s\<lparr>ooms_oob := True\<rparr>)
          else s)"

text \<open>The three assignments that make \<open>p\<close> the selection.\<close>

definition select_task :: "task_struct \<Rightarrow> c_int \<Rightarrow> c_int \<Rightarrow> scan_state \<Rightarrow> scan_state" where
  "select_task p tasksize oa s =
     s\<lparr>selected := Some p, selected_tasksize := tasksize, selected_oom_adj := oa\<rparr>"

text \<open>One iteration of \<open>for_each_process(p)\<close>; every \<open>continue\<close> returns the state.\<close>

definition scan_step ::
  "lowmem_config \<Rightarrow> c_int \<Rightarrow> c_int \<Rightarrow> scan_state \<Rightarrow> task_struct \<Rightarrow> scan_state" where
  "scan_step cfg nr_to_scan min_adj s p =
     (case mm p of
        None \<Rightarrow> s
      | Some m \<Rightarrow>
     (case signal p of
        None \<Rightarrow> s
      | Some sg \<Rightarrow>
          let oa = oom_adj sg;
              s = count_oom oa s
          in if oa <s min_adj then s
             else
               let tasksize = rss m
               in if tasksize \<le>s 0 then s
                  else
                    (case selected s of
                       None \<Rightarrow> select_task p tasksize oa s
                     | Some q \<Rightarrow>
                         if oa <s selected_oom_adj s then s
                         else if lowmem_oldmethod cfg \<noteq> 0 then
                           (if oa = selected_oom_adj s \<and> tasksize \<le>s selected_tasksize s
                            then s
                            else select_task p tasksize oa s)
                         else
                           let delta = abs_c (nr_to_scan * lowmem_multiplier cfg - tasksize)
                           in if oa = selected_oom_adj s \<and> lowmem_delta s < delta then s
                              else select_task p tasksize oa
                                     (if delta \<le> lowmem_delta s
                                      then s\<lparr>lowmem_delta := delta\<rparr> else s))))"

fun scan_loop ::
  "lowmem_config \<Rightarrow> c_int \<Rightarrow> c_int \<Rightarrow> scan_state \<Rightarrow> task_struct list \<Rightarrow> scan_state" where
  "scan_loop cfg nr_to_scan min_adj s [] = s"
| "scan_loop cfg nr_to_scan min_adj s (p # ps) =
     scan_loop cfg nr_to_scan min_adj (scan_step cfg nr_to_scan min_adj s p) ps"

text \<open>
  The values of the locals when the loop starts: no selection,
  \<open>selected_oom_adj = min_adj\<close>, \<open>lowmem_delta = (1048576 * 1024) / PAGE_SIZE\<close>
  and the zeroed histogram buffer of 20 counters, if it could be allocated.
\<close>

definition scan_init :: "kernel \<Rightarrow> host \<Rightarrow> c_int \<Rightarrow> scan_state" where
  "scan_init K h min_adj =
     \<lparr>selected = None, selected_tasksize = 0, selected_oom_adj = min_adj,
      lowmem_delta = (1048576 * 1024) div PAGE_SIZE K,
      ooms_seen = (if kzalloc_ok h then Some (replicate 20 0) else None),
      ooms_oob = False\<rparr>"

subsection \<open>The shrinker callback\<close>

text \<open>
  What an invocation leaves behind: the value it returns, the static variables, and
  the task that \<open>force_sig(SIGKILL, ...)\<close> was called on, if any.
\<close>

record shrink_result =
  ret :: c_int
  guard :: lowmem_state
  sigkill :: "task_ptr option"

definition death_outstanding :: "kernel \<Rightarrow> host \<Rightarrow> lowmem_state \<Rightarrow> bool" where
  "death_outstanding K h st \<longleftrightarrow>
     lowmem_deathpending st \<noteq> None
     \<and> time_before_eq K (jiffies h) (lowmem_deathpending_timeout st)"

definition lowmem_scan :: "kernel \<Rightarrow> lowmem_config \<Rightarrow> host \<Rightarrow> c_int \<Rightarrow> scan_state" where
  "lowmem_scan K cfg h nr_to_scan =
     (let min_adj = min_adj_of K cfg (other_free_of h) (other_file_of h)
      in scan_loop cfg nr_to_scan min_adj (scan_init K h min_adj) (processes h))"

definition lowmem_shrink ::
  "kernel \<Rightarrow> lowmem_config \<Rightarrow> host \<Rightarrow> lowmem_state \<Rightarrow> c_int \<Rightarrow> shrink_result" where
  "lowmem_shrink K cfg h st nr_to_scan =
     (if death_outstanding K h st then \<lparr>ret = 0, guard = st, sigkill = None\<rparr>
      else
        let min_adj = min_adj_of K cfg (other_free_of h) (other_file_of h);
            rem = rem_of h
        in if nr_to_scan \<le>s 0 \<or> min_adj = OOM_ADJUST_MAX K + 1
           then \<lparr>ret = rem, guard = st, sigkill = None\<rparr>
           else
             let s = lowmem_scan K cfg h nr_to_scan
             in (case selected s of
                   None \<Rightarrow> \<lparr>ret = rem, guard = st, sigkill = None\<rparr>
                 | Some p \<Rightarrow>
                     \<lparr>ret = rem - selected_tasksize s,
                      guard = \<lparr>lowmem_deathpending = Some (task p),
                               lowmem_deathpending_timeout = jiffies h + HZ K\<rparr>,
                      sigkill = Some (task p)\<rparr>))"

subsection \<open>Concrete values used in the examples\<close>

text \<open>
  The kernel constants of the 32-bit ARM build (4 KiB pages, \<open>OOM_ADJUST_MAX = 15\<close>,
  100 ticks per second) with the wrap-safe comparison of tick counts, and the
  driver's initial parameters.
\<close>

definition arm_kernel :: kernel where
  "arm_kernel =
     \<lparr>PAGE_SIZE = 4096, HZ = 100, OOM_ADJUST_MAX = 15,
      time_before_eq = (\<lambda>a b. 0 \<le>s b - a)\<rparr>"

definition default_config :: lowmem_config where
  "default_config =
     \<lparr>lowmem_adj = [0, 1, 6, 12, 0, 0, 0, 0, 0, 0, 0, 0],
      lowmem_adj_size = 4,
      lowmem_minfree = [3 * 512, 2 * 1024, 4 * 1024, 16 * 1024, 0, 0, 0, 0, 0, 0, 0, 0],
      lowmem_minfree_size = 4,
      lowmem_multiplier = 36,
      lowmem_oldmethod = 0\<rparr>"

definition proc :: "nat \<Rightarrow> c_int \<Rightarrow> c_ulong \<Rightarrow> task_struct" where
  "proc t oa sz =
     \<lparr>task = t, pid = word_of_nat t, mm = Some \<lparr>rss = sz\<rparr>, signal = Some \<lparr>oom_adj = oa\<rparr>\<rparr>"

definition pages :: "c_ulong \<Rightarrow> c_ulong \<Rightarrow> c_ulong \<Rightarrow> zone_stat_item \<Rightarrow> c_ulong" where
  "pages free file active item =
     (case item of
        NR_FREE_PAGES \<Rightarrow> free
      | NR_FILE_PAGES \<Rightarrow> file
      | NR_ACTIVE_ANON \<Rightarrow> active
      | _ \<Rightarrow> 0)"

subsection \<open>Notions of the specification\<close>

text \<open>
  A configuration as the module-parameter interface keeps it: both arrays have their
  12 slots, and each size parameter counts the slots in use.
\<close>

definition wf_config :: "lowmem_config \<Rightarrow> bool" where
  "wf_config cfg \<longleftrightarrow>
     length (lowmem_adj cfg) = LOWMEM_ADJ_SLOTS
     \<and> length (lowmem_minfree cfg) = LOWMEM_ADJ_SLOTS
     \<and> 0 \<le>s lowmem_adj_size cfg \<and> lowmem_adj_size cfg \<le>s 12
     \<and> 0 \<le>s lowmem_minfree_size cfg \<and> lowmem_minfree_size cfg \<le>s 12"

text \<open>The two sequences of the specification: the slots in use of each array.\<close>

definition tiers_of :: "lowmem_config \<Rightarrow> c_int list" where
  "tiers_of cfg = take (nat (sint (lowmem_adj_size cfg))) (lowmem_adj cfg)"

definition minima_of :: "lowmem_config \<Rightarrow> c_uint list" where
  "minima_of cfg = take (nat (sint (lowmem_minfree_size cfg))) (lowmem_minfree cfg)"

text \<open>
  \<open>resolveMinPriority\<close> in the words of the specification: the cutoff at the first
  index below both lengths where the free and the file pages are both under the
  minimum, or none.
\<close>

definition resolveMinPriority ::
  "c_int list \<Rightarrow> c_uint list \<Rightarrow> c_uint \<Rightarrow> c_uint \<Rightarrow> c_int option" where
  "resolveMinPriority tiers minima freePages filePages =
     (case find (\<lambda>i. freePages < minima ! i \<and> filePages < minima ! i)
             [0 ..< min (length tiers) (length minima)] of
        None \<Rightarrow> None
      | Some i \<Rightarrow> Some (tiers ! i))"

text \<open>
  The eligible candidates of the specification: a task with a memory context and a
  signal context, a priority not below the minimum, and a positive footprint. The
  result is its priority and its footprint.
\<close>

definition candidate :: "c_int \<Rightarrow> task_struct \<Rightarrow> (c_int \<times> c_int) option" where
  "candidate min_adj p =
     (case mm p of
        None \<Rightarrow> None
      | Some m \<Rightarrow>
          (case signal p of
             None \<Rightarrow> None
           | Some sg \<Rightarrow>
               if oom_adj sg <s min_adj \<or> rss m \<le>s 0 then None
               else Some (oom_adj sg, rss m)))"

text \<open>
  The priority of a task that the scan looks at (one with both contexts): the value
  that indexes the histogram.
\<close>

definition observed :: "task_struct \<Rightarrow> c_int option" where
  "observed p =
     (case mm p of
        None \<Rightarrow> None
      | Some m \<Rightarrow> (case signal p of None \<Rightarrow> None | Some sg \<Rightarrow> Some (oom_adj sg)))"

text \<open>
  The invariant of the scan over the set \<open>P\<close> of tasks met so far: nothing is
  selected exactly when \<open>P\<close> holds no candidate, and a selected task is a candidate
  of \<open>P\<close> whose recorded priority and footprint are its own and whose priority no
  candidate of \<open>P\<close> exceeds.
\<close>

definition selection_ok :: "c_int \<Rightarrow> task_struct set \<Rightarrow> scan_state \<Rightarrow> bool" where
  "selection_ok min_adj P s \<longleftrightarrow>
     (case selected s of
        None \<Rightarrow> \<forall>p\<in>P. candidate min_adj p = None
      | Some q \<Rightarrow>
          q \<in> P
          \<and> candidate min_adj q = Some (selected_oom_adj s, selected_tasksize s)
          \<and> (\<forall>p\<in>P. \<forall>oa t. candidate min_adj p = Some (oa, t) \<longrightarrow> oa \<le>s selected_oom_adj s))"

subsection \<open>Further values used in the examples\<close>

text \<open>
  Hosts with no free and no file pages (every tier matches, the minimum priority is
  0): one with 1000 active anonymous pages, and two whose four active and inactive
  counters differ (400, 300, 200, 100 and 40, 30, 20, 10); the state of the scan
  after a first task; the driver's parameters with the legacy tie-break switched on;
  the guard states.
\<close>

definition example_host :: "task_struct list \<Rightarrow> host" where
  "example_host ps =
     \<lparr>global_page_state = pages 0 0 1000, jiffies = 5000, processes = ps, kzalloc_ok = True\<rparr>"

definition lru_counters ::
  "c_ulong \<Rightarrow> c_ulong \<Rightarrow> c_ulong \<Rightarrow> c_ulong \<Rightarrow> zone_stat_item \<Rightarrow> c_ulong" where
  "lru_counters active_anon active_file inactive_anon inactive_file item =
     (case item of
        NR_ACTIVE_ANON \<Rightarrow> active_anon
      | NR_ACTIVE_FILE \<Rightarrow> active_file
      | NR_INACTIVE_ANON \<Rightarrow> inactive_anon
      | NR_INACTIVE_FILE \<Rightarrow> inactive_file
      | _ \<Rightarrow> 0)"

definition busy_host :: "task_struct list \<Rightarrow> host" where
  "busy_host ps =
     \<lparr>global_page_state = lru_counters 400 300 200 100, jiffies = 5000, processes = ps,
      kzalloc_ok = True\<rparr>"

definition tight_host :: "task_struct list \<Rightarrow> host" where
  "tight_host ps =
     \<lparr>global_page_state = lru_counters 40 30 20 10, jiffies = 5000, processes = ps,
      kzalloc_ok = True\<rparr>"

definition first_selected :: "lowmem_config \<Rightarrow> task_struct \<Rightarrow> scan_state" where
  "first_selected cfg p = scan_step cfg 10 0 (scan_init arm_kernel (example_host []) 0) p"

definition legacy_config :: lowmem_config where
  "legacy_config =
     \<lparr>lowmem_adj = [0, 1, 6, 12, 0, 0, 0, 0, 0, 0, 0, 0],
      lowmem_adj_size = 4,
      lowmem_minfree = [3 * 512, 2 * 1024, 4 * 1024, 16 * 1024, 0, 0, 0, 0, 0, 0, 0, 0],
      lowmem_minfree_size = 4,
      lowmem_multiplier = 36,
      lowmem_oldmethod = 1\<rparr>"

definition idle :: lowmem_state where
  "idle = \<lparr>lowmem_deathpending = None, lowmem_deathpending_timeout = 0\<rparr>"

definition awaiting :: "task_ptr \<Rightarrow> c_ulong \<Rightarrow> lowmem_state" where
  "awaiting t deadline = \<lparr>lowmem_deathpending = Some t, lowmem_deathpending_timeout = deadline\<rparr>"

section \<open>Properties\<close>

subsection \<open>The threshold lookup\<close>

lemma array_size_wf:
  assumes "wf_config cfg"
  shows "nat (sint (array_size cfg)) = min (length (tiers_of cfg)) (length (minima_of cfg))"
proof -
  let ?a = "sint (lowmem_adj_size cfg)" and ?m = "sint (lowmem_minfree_size cfg)"
  from assms have b: "0 \<le> ?a" "?a \<le> 12" "0 \<le> ?m" "?m \<le> 12"
    by (simp_all add: wf_config_def word_sle_eq)
  from assms have l: "length (lowmem_adj cfg) = 12" "length (lowmem_minfree cfg) = 12"
    by (simp_all add: wf_config_def LOWMEM_ADJ_SLOTS_def)
  have "sint (array_size cfg) = min ?a ?m"
    using b by (simp add: array_size_def LOWMEM_ADJ_SLOTS_def Let_def word_sless_alt min_def)
  then show ?thesis
    using b l unfolding tiers_of_def minima_of_def length_take by arith
qed

lemma min_adj_loop_find:
  "min_adj_loop cfg other_free other_file n i d =
     (case find (\<lambda>j. other_free < lowmem_minfree cfg ! j \<and> other_file < lowmem_minfree cfg ! j)
             [i ..< nat (sint n)] of
        None \<Rightarrow> d
      | Some j \<Rightarrow> lowmem_adj cfg ! j)"
proof (induction cfg other_free other_file n i d rule: min_adj_loop.induct)
  case (1 cfg other_free other_file n i d)
  show ?case
  proof (cases "int i < sint n")
    case True
    then have "i < nat (sint n)" by simp
    then have upt: "[i ..< nat (sint n)] = i # [Suc i ..< nat (sint n)]"
      by (rule upt_conv_Cons)
    show ?thesis
      using True "1.IH" by (subst min_adj_loop.simps) (simp add: upt)
  next
    case False
    then have "[i ..< nat (sint n)] = []" by simp
    with False show ?thesis by (subst min_adj_loop.simps) simp
  qed
qed

lemma find_upt_cong:
  assumes "\<And>i. i < n \<Longrightarrow> P i = Q i"
  shows "find P [0 ..< n] = find Q [0 ..< n]"
  by (rule find_cong) (simp_all add: assms)

lemma find_upt_less: "find P [0 ..< n] = Some j \<Longrightarrow> j < n"
  by (auto simp: find_Some_iff)

text \<open>
  C3. For every well-formed configuration and every pair of page counts, the
  threshold loop of \<open>lowmem_shrink\<close> returns what \<open>resolveMinPriority\<close> returns on
  the slots in use of the two arrays: the cutoff at the first index, below both
  lengths, where the free and the file pages are both under the minimum, and the
  value \<open>OOM_ADJUST_MAX + 1\<close> that stands for none when there is no such index.
  Slots at or beyond the shorter length are not part of the two sequences, so they
  are not read.
\<close>

theorem resolve_min_priority_first_match:
  assumes "wf_config cfg"
  shows "min_adj_of K cfg freePages filePages =
           (case resolveMinPriority (tiers_of cfg) (minima_of cfg) freePages filePages of
              None \<Rightarrow> OOM_ADJUST_MAX K + 1
            | Some a \<Rightarrow> a)"
proof -
  let ?n = "min (length (tiers_of cfg)) (length (minima_of cfg))"
  let ?P = "\<lambda>j. freePages < lowmem_minfree cfg ! j \<and> filePages < lowmem_minfree cfg ! j"
  let ?Q = "\<lambda>j. freePages < minima_of cfg ! j \<and> filePages < minima_of cfg ! j"
  have n: "nat (sint (array_size cfg)) = ?n" by (rule array_size_wf [OF assms])
  have PQ: "find ?P [0 ..< ?n] = find ?Q [0 ..< ?n]"
    by (rule find_upt_cong) (simp add: minima_of_def)
  have adj: "lowmem_adj cfg ! j = tiers_of cfg ! j" if "j < ?n" for j
    using that by (simp add: tiers_of_def)
  have 1: "min_adj_of K cfg freePages filePages =
          (case find ?P [0 ..< ?n] of None \<Rightarrow> OOM_ADJUST_MAX K + 1 | Some j \<Rightarrow> lowmem_adj cfg ! j)"
    unfolding min_adj_of_def min_adj_loop_find n ..
  show ?thesis
  proof (cases "find ?Q [0 ..< ?n]")
    case None
    then show ?thesis unfolding 1 PQ resolveMinPriority_def by simp
  next
    case (Some j)
    then have "j < ?n" by (rule find_upt_less)
    then have "lowmem_adj cfg ! j = tiers_of cfg ! j" by (rule adj)
    with Some show ?thesis unfolding 1 PQ resolveMinPriority_def by simp
  qed
qed

text \<open>
  The scenario of the specification: with the tiers (0, 1536), (1, 2048), (6, 4096),
  (12, 16384), 3000 free pages and 1000 file pages, the lookup returns 6.
\<close>

theorem resolve_min_priority_first_match_witness:
  "wf_config default_config
   \<and> tiers_of default_config = [0, 1, 6, 12]
   \<and> minima_of default_config = [1536, 2048, 4096, 16384]
   \<and> resolveMinPriority [0, 1, 6, 12] [1536, 2048, 4096, 16384] 3000 1000 = Some 6
   \<and> min_adj_of arm_kernel default_config 3000 1000 = 6"
proof -
  have wf: "wf_config default_config"
    by (simp add: wf_config_def default_config_def LOWMEM_ADJ_SLOTS_def word_sle_eq)
  have t: "tiers_of default_config = [0, 1, 6, 12]"
    by (simp add: tiers_of_def default_config_def)
  have m: "minima_of default_config = [1536, 2048, 4096, 16384]"
    by (simp add: minima_of_def default_config_def)
  have u: "[0 ..< 4] = [0, 1, 2, 3]"
    by (simp add: upt_rec)
  have r: "resolveMinPriority [0, 1, 6, 12] [1536, 2048, 4096, 16384] 3000 1000 = Some (6 :: c_int)"
    by (simp add: resolveMinPriority_def u)
  have "min_adj_of arm_kernel default_config 3000 1000 = 6"
    unfolding resolve_min_priority_first_match [OF wf, of arm_kernel 3000 1000] t m r by simp
  with wf t m r show ?thesis by blast
qed

subsection \<open>The exit notification\<close>

text \<open>
  C8. When a victim is pending, a notification for the pending task clears the
  pending task and leaves the deadline as it is, and a notification for any other
  task changes nothing.
\<close>

theorem task_notify_func_clears_only_pending:
  assumes "lowmem_deathpending st = Some t"
  shows "task_notify_func st t = st\<lparr>lowmem_deathpending := None\<rparr>
         \<and> (\<forall>u. u \<noteq> t \<longrightarrow> task_notify_func st u = st)"
  using assms by (simp add: task_notify_func_def)

text \<open>Pending task 42: a notification for 7 is ignored, one for 42 clears the guard.\<close>

theorem task_notify_func_clears_only_pending_witness:
  "lowmem_deathpending \<lparr>lowmem_deathpending = Some 42, lowmem_deathpending_timeout = 5100\<rparr> = Some 42
   \<and> task_notify_func \<lparr>lowmem_deathpending = Some 42, lowmem_deathpending_timeout = 5100\<rparr> 7
       = \<lparr>lowmem_deathpending = Some 42, lowmem_deathpending_timeout = 5100\<rparr>
   \<and> task_notify_func \<lparr>lowmem_deathpending = Some 42, lowmem_deathpending_timeout = 5100\<rparr> 42
       = \<lparr>lowmem_deathpending = None, lowmem_deathpending_timeout = 5100\<rparr>"
  using task_notify_func_clears_only_pending
    [of "\<lparr>lowmem_deathpending = Some 42, lowmem_deathpending_timeout = 5100\<rparr>" 42]
  by simp

subsection \<open>Evaluation on concrete inputs\<close>

lemmas scan_eval =
  lowmem_scan_def min_adj_of_def array_size_def LOWMEM_ADJ_SLOTS_def arm_kernel_def
  default_config_def other_free_of_def other_file_of_def rem_of_def pages_def scan_init_def
  scan_step_def count_oom_def select_task_def proc_def abs_c_def example_host_def
  first_selected_def candidate_def Let_def word_sless_alt word_sle_eq

lemmas shrink_eval = lowmem_shrink_def death_outstanding_def scan_eval

lemmas lru_eval = shrink_eval lru_counters_def busy_host_def tight_host_def idle_def

subsection \<open>One iteration of the scan\<close>

lemma count_oom_fields [simp]:
  "selected (count_oom oa s) = selected s"
  "selected_tasksize (count_oom oa s) = selected_tasksize s"
  "selected_oom_adj (count_oom oa s) = selected_oom_adj s"
  "lowmem_delta (count_oom oa s) = lowmem_delta s"
  by (simp_all add: count_oom_def split: option.splits)

lemma select_task_fields [simp]:
  "selected (select_task p t oa s) = Some p"
  "selected_tasksize (select_task p t oa s) = t"
  "selected_oom_adj (select_task p t oa s) = oa"
  "ooms_seen (select_task p t oa s) = ooms_seen s"
  "ooms_oob (select_task p t oa s) = ooms_oob s"
  by (simp_all add: select_task_def)

text \<open>What an iteration does to the selection, by the kind of task it meets.\<close>

lemma scan_step_skip:
  assumes "candidate min_adj p = None"
  shows "selected (scan_step cfg n min_adj s p) = selected s"
    and "selected_tasksize (scan_step cfg n min_adj s p) = selected_tasksize s"
    and "selected_oom_adj (scan_step cfg n min_adj s p) = selected_oom_adj s"
  using assms
  by (auto simp: candidate_def scan_step_def Let_def split: option.splits if_splits)

lemma scan_step_first:
  assumes "candidate min_adj p = Some (oa, t)" and "selected s = None"
  shows "scan_step cfg n min_adj s p = select_task p t oa (count_oom oa s)"
  using assms
  by (auto simp: candidate_def scan_step_def Let_def split: option.splits if_splits)

lemma scan_step_lower:
  assumes "candidate min_adj p = Some (oa, t)" and "selected s = Some q"
    and "oa <s selected_oom_adj s"
  shows "scan_step cfg n min_adj s p = count_oom oa s"
  using assms
  by (auto simp: candidate_def scan_step_def Let_def split: option.splits if_splits)

lemma scan_step_higher:
  assumes "candidate min_adj p = Some (oa, t)" and "selected_oom_adj s <s oa"
  shows "selected (scan_step cfg n min_adj s p) = Some p"
    and "selected_tasksize (scan_step cfg n min_adj s p) = t"
    and "selected_oom_adj (scan_step cfg n min_adj s p) = oa"
  using assms
  by (auto simp: candidate_def scan_step_def Let_def word_sless_alt
      split: option.splits if_splits)

lemma scan_step_cases:
  assumes "candidate min_adj p = Some (oa, t)"
  shows "(selected (scan_step cfg n min_adj s p) = selected s
          \<and> selected_tasksize (scan_step cfg n min_adj s p) = selected_tasksize s
          \<and> selected_oom_adj (scan_step cfg n min_adj s p) = selected_oom_adj s
          \<and> selected s \<noteq> None \<and> oa \<le>s selected_oom_adj s)
         \<or> (selected (scan_step cfg n min_adj s p) = Some p
          \<and> selected_tasksize (scan_step cfg n min_adj s p) = t
          \<and> selected_oom_adj (scan_step cfg n min_adj s p) = oa
          \<and> (selected s \<noteq> None \<longrightarrow> selected_oom_adj s \<le>s oa))"
  using assms
  by (auto simp: candidate_def scan_step_def Let_def word_sless_alt word_sle_eq
      split: option.splits if_splits)

lemma candidate_SomeD:
  assumes "candidate min_adj p = Some (oa, t)"
  shows "map_option rss (mm p) = Some t" and "map_option oom_adj (signal p) = Some oa"
    and "0 <s t" and "min_adj \<le>s oa"
  using assms
  by (auto simp: candidate_def word_sless_alt word_sle_eq split: option.splits if_splits)

subsection \<open>The invariant of the scan\<close>

lemma sle_trans: "a \<le>s b \<Longrightarrow> b \<le>s c \<Longrightarrow> a \<le>s c"
  by (simp add: word_sle_eq)

lemma selection_ok_step:
  assumes "selection_ok min_adj P s"
  shows "selection_ok min_adj (insert p P) (scan_step cfg n min_adj s p)"
proof (cases "candidate min_adj p")
  case None
  with assms show ?thesis
    by (auto simp: selection_ok_def scan_step_skip split: option.splits)
next
  case (Some c)
  obtain oa t where c: "candidate min_adj p = Some (oa, t)"
    using Some by (cases c) simp
  from scan_step_cases [OF c, of cfg n s] show ?thesis
  proof (elim disjE conjE)
    assume "selected (scan_step cfg n min_adj s p) = selected s"
      "selected_tasksize (scan_step cfg n min_adj s p) = selected_tasksize s"
      "selected_oom_adj (scan_step cfg n min_adj s p) = selected_oom_adj s"
      "selected s \<noteq> None" "oa \<le>s selected_oom_adj s"
    with assms c show ?thesis
      by (auto simp: selection_ok_def split: option.splits)
  next
    assume *: "selected (scan_step cfg n min_adj s p) = Some p"
      "selected_tasksize (scan_step cfg n min_adj s p) = t"
      "selected_oom_adj (scan_step cfg n min_adj s p) = oa"
      "selected s \<noteq> None \<longrightarrow> selected_oom_adj s \<le>s oa"
    show ?thesis
    proof (cases "selected s")
      case None
      with assms c * show ?thesis
        by (auto simp: selection_ok_def)
    next
      case (Some q)
      with * have le: "selected_oom_adj s \<le>s oa" by simp
      from assms Some have old: "\<forall>r\<in>P. \<forall>oa' t'. candidate min_adj r = Some (oa', t')
          \<longrightarrow> oa' \<le>s selected_oom_adj s"
        by (simp add: selection_ok_def)
      have "\<forall>r\<in>P. \<forall>oa' t'. candidate min_adj r = Some (oa', t') \<longrightarrow> oa' \<le>s oa"
        using old le by (blast intro: sle_trans)
      with c * show ?thesis
        by (auto simp: selection_ok_def)
    qed
  qed
qed

lemma selection_ok_loop:
  assumes "selection_ok min_adj P s"
  shows "selection_ok min_adj (P \<union> set ps) (scan_loop cfg n min_adj s ps)"
  using assms
proof (induction ps arbitrary: P s)
  case Nil
  then show ?case by simp
next
  case (Cons p ps)
  from Cons.prems have "selection_ok min_adj (insert p P) (scan_step cfg n min_adj s p)"
    by (rule selection_ok_step)
  then have "selection_ok min_adj (insert p P \<union> set ps)
      (scan_loop cfg n min_adj (scan_step cfg n min_adj s p) ps)"
    by (rule Cons.IH)
  then show ?case by simp
qed

lemma selection_ok_init: "selection_ok min_adj {} (scan_init K h min_adj)"
  by (simp add: selection_ok_def scan_init_def)

lemma lowmem_scan_selection_ok:
  "selection_ok (min_adj_of K cfg (other_free_of h) (other_file_of h)) (set (processes h))
     (lowmem_scan K cfg h n)"
  using selection_ok_loop [OF selection_ok_init, where ps = "processes h" and cfg = cfg and n = n]
  by (simp add: lowmem_scan_def Let_def)

lemma lowmem_scan_selected:
  assumes "selected (lowmem_scan K cfg h nr) = Some p"
  shows "p \<in> set (processes h)"
    and "map_option rss (mm p) = Some (selected_tasksize (lowmem_scan K cfg h nr))"
    and "0 <s selected_tasksize (lowmem_scan K cfg h nr)"
proof -
  from lowmem_scan_selection_ok [of K cfg h nr] assms
  have p: "p \<in> set (processes h)"
    and c: "candidate (min_adj_of K cfg (other_free_of h) (other_file_of h)) p
        = Some (selected_oom_adj (lowmem_scan K cfg h nr), selected_tasksize (lowmem_scan K cfg h nr))"
    by (simp_all add: selection_ok_def)
  show "p \<in> set (processes h)" by (rule p)
  show "map_option rss (mm p) = Some (selected_tasksize (lowmem_scan K cfg h nr))"
    by (rule candidate_SomeD(1) [OF c])
  show "0 <s selected_tasksize (lowmem_scan K cfg h nr)"
    by (rule candidate_SomeD(3) [OF c])
qed

subsection \<open>The paths through the shrinker callback\<close>

lemma lowmem_shrink_blocked:
  assumes "death_outstanding K h st"
  shows "lowmem_shrink K cfg h st nr = \<lparr>ret = 0, guard = st, sigkill = None\<rparr>"
  using assms by (simp add: lowmem_shrink_def)

lemma lowmem_shrink_query:
  assumes "\<not> death_outstanding K h st"
    and "nr \<le>s 0 \<or> min_adj_of K cfg (other_free_of h) (other_file_of h) = OOM_ADJUST_MAX K + 1"
  shows "lowmem_shrink K cfg h st nr = \<lparr>ret = rem_of h, guard = st, sigkill = None\<rparr>"
  using assms by (auto simp: lowmem_shrink_def Let_def)

lemma lowmem_shrink_kill:
  assumes "\<not> death_outstanding K h st" and "\<not> nr \<le>s 0"
    and "min_adj_of K cfg (other_free_of h) (other_file_of h) \<noteq> OOM_ADJUST_MAX K + 1"
    and "selected (lowmem_scan K cfg h nr) = Some p"
  shows "lowmem_shrink K cfg h st nr =
           \<lparr>ret = rem_of h - selected_tasksize (lowmem_scan K cfg h nr),
            guard = \<lparr>lowmem_deathpending = Some (task p),
                     lowmem_deathpending_timeout = jiffies h + HZ K\<rparr>,
            sigkill = Some (task p)\<rparr>"
  using assms by (simp add: lowmem_shrink_def Let_def)

lemma lowmem_shrink_cases:
  "lowmem_shrink K cfg h st nr = \<lparr>ret = 0, guard = st, sigkill = None\<rparr>
   \<or> lowmem_shrink K cfg h st nr = \<lparr>ret = rem_of h, guard = st, sigkill = None\<rparr>
   \<or> (\<exists>p. selected (lowmem_scan K cfg h nr) = Some p
          \<and> lowmem_shrink K cfg h st nr =
               \<lparr>ret = rem_of h - selected_tasksize (lowmem_scan K cfg h nr),
                guard = \<lparr>lowmem_deathpending = Some (task p),
                         lowmem_deathpending_timeout = jiffies h + HZ K\<rparr>,
                sigkill = Some (task p)\<rparr>)"
  by (auto simp: lowmem_shrink_def Let_def split: option.splits)

subsection \<open>The selection\<close>

text \<open>
  C1. The specification expects that, with 10 requested pages and the multiplier 36
  (target 360), two candidates of equal priority with footprints 300 and 500 yield
  the 300-page one in either order, because the first accepted candidate would seed
  the best delta. The source computes the delta only inside \<open>if (selected)\<close>:
  after the first candidate \<open>lowmem_delta\<close> is still the initial 262144, so the
  500-page candidate (delta 140) met second replaces the 300-page one (delta 60) and
  is the task that is killed. In the other order the 300-page candidate is chosen.
\<close>

theorem first_candidate_does_not_seed_delta:
  "abs_c (10 * lowmem_multiplier default_config - 300) = 60
   \<and> abs_c (10 * lowmem_multiplier default_config - 500) = 140
   \<and> selected (first_selected default_config (proc 1 6 300)) = Some (proc 1 6 300)
   \<and> lowmem_delta (first_selected default_config (proc 1 6 300)) = 262144
   \<and> selected (lowmem_scan arm_kernel default_config
        (example_host [proc 1 6 300, proc 2 6 500]) 10) = Some (proc 2 6 500)
   \<and> sigkill (lowmem_shrink arm_kernel default_config
        (example_host [proc 1 6 300, proc 2 6 500]) idle 10) = Some 2
   \<and> selected (lowmem_scan arm_kernel default_config
        (example_host [proc 2 6 500, proc 1 6 300]) 10) = Some (proc 1 6 300)"
proof (intro conjI)
  show "abs_c (10 * lowmem_multiplier default_config - 300) = 60"
    and "abs_c (10 * lowmem_multiplier default_config - 500) = 140"
    by (simp_all add: abs_c_def default_config_def word_sless_alt)
  show "selected (first_selected default_config (proc 1 6 300)) = Some (proc 1 6 300)"
    and "lowmem_delta (first_selected default_config (proc 1 6 300)) = 262144"
    by (simp_all add: scan_eval)
  show "selected (lowmem_scan arm_kernel default_config
        (example_host [proc 1 6 300, proc 2 6 500]) 10) = Some (proc 2 6 500)"
    by (simp add: scan_eval)
  show "sigkill (lowmem_shrink arm_kernel default_config
        (example_host [proc 1 6 300, proc 2 6 500]) idle 10) = Some 2"
    by (simp add: shrink_eval idle_def)
  show "selected (lowmem_scan arm_kernel default_config
        (example_host [proc 2 6 500, proc 1 6 300]) 10) = Some (proc 1 6 300)"
    by (simp add: scan_eval)
qed

text \<open>
  C4. Within a pass the priority of the selection never decreases: a candidate of
  strictly lower priority leaves the selection as it is, and one of strictly higher
  priority replaces it whatever its footprint. Hence a task selected by the scan is
  one of the scanned tasks, an eligible candidate, and no eligible candidate of the
  process list has a higher priority.
\<close>

theorem selection_priority_never_decreases:
  "(selected s \<noteq> None \<longrightarrow>
      selected_oom_adj s \<le>s selected_oom_adj (scan_step cfg n min_adj s p))
   \<and> (selected s \<noteq> None \<and> candidate min_adj p = Some (oa, t) \<and> oa <s selected_oom_adj s \<longrightarrow>
      selected (scan_step cfg n min_adj s p) = selected s)
   \<and> (selected s \<noteq> None \<and> candidate min_adj p = Some (oa, t) \<and> selected_oom_adj s <s oa \<longrightarrow>
      selected (scan_step cfg n min_adj s p) = Some p
      \<and> selected_oom_adj (scan_step cfg n min_adj s p) = oa
      \<and> selected_tasksize (scan_step cfg n min_adj s p) = t)
   \<and> (selected (lowmem_scan K cfg h n) = Some v \<longrightarrow>
      v \<in> set (processes h)
      \<and> candidate (min_adj_of K cfg (other_free_of h) (other_file_of h)) v
          = Some (selected_oom_adj (lowmem_scan K cfg h n),
                  selected_tasksize (lowmem_scan K cfg h n))
      \<and> (\<forall>q\<in>set (processes h). \<forall>oa' t'.
            candidate (min_adj_of K cfg (other_free_of h) (other_file_of h)) q = Some (oa', t')
            \<longrightarrow> oa' \<le>s selected_oom_adj (lowmem_scan K cfg h n)))"
proof (intro conjI impI)
  assume sel: "selected s \<noteq> None"
  show "selected_oom_adj s \<le>s selected_oom_adj (scan_step cfg n min_adj s p)"
  proof (cases "candidate min_adj p")
    case None
    then show ?thesis by (simp add: scan_step_skip)
  next
    case (Some c)
    then obtain oa' t' where "candidate min_adj p = Some (oa', t')" by (cases c) simp
    from scan_step_cases [OF this, of cfg n s] sel show ?thesis by auto
  qed
next
  assume a: "selected s \<noteq> None \<and> candidate min_adj p = Some (oa, t) \<and> oa <s selected_oom_adj s"
  then obtain q where "selected s = Some q" by auto
  with a show "selected (scan_step cfg n min_adj s p) = selected s"
    by (simp add: scan_step_lower)
next
  assume a: "selected s \<noteq> None \<and> candidate min_adj p = Some (oa, t) \<and> selected_oom_adj s <s oa"
  then show "selected (scan_step cfg n min_adj s p) = Some p"
    and "selected_oom_adj (scan_step cfg n min_adj s p) = oa"
    and "selected_tasksize (scan_step cfg n min_adj s p) = t"
    by (simp_all add: scan_step_higher)
next
  assume v: "selected (lowmem_scan K cfg h n) = Some v"
  note ok = lowmem_scan_selection_ok [of K cfg h n]
  from ok v show "v \<in> set (processes h)"
    by (simp add: selection_ok_def)
  from ok v show "candidate (min_adj_of K cfg (other_free_of h) (other_file_of h)) v
          = Some (selected_oom_adj (lowmem_scan K cfg h n),
                  selected_tasksize (lowmem_scan K cfg h n))"
    by (simp add: selection_ok_def)
  from ok v show "\<forall>q\<in>set (processes h). \<forall>oa' t'.
            candidate (min_adj_of K cfg (other_free_of h) (other_file_of h)) q = Some (oa', t')
            \<longrightarrow> oa' \<le>s selected_oom_adj (lowmem_scan K cfg h n)"
    by (simp add: selection_ok_def)
qed

text \<open>
  A selection of priority 6 and footprint 10000 is replaced by a candidate of
  priority 12 and footprint 50, and kept against one of priority 1.
\<close>

theorem selection_priority_never_decreases_witness:
  "selected (first_selected default_config (proc 1 6 10000)) = Some (proc 1 6 10000)
   \<and> selected_oom_adj (first_selected default_config (proc 1 6 10000)) = 6
   \<and> selected_tasksize (first_selected default_config (proc 1 6 10000)) = 10000
   \<and> candidate 0 (proc 2 12 50) = Some (12, 50)
   \<and> selected (scan_step default_config 10 0
         (first_selected default_config (proc 1 6 10000)) (proc 2 12 50)) = Some (proc 2 12 50)
   \<and> candidate 0 (proc 3 1 700) = Some (1, 700)
   \<and> selected (scan_step default_config 10 0
         (first_selected default_config (proc 1 6 10000)) (proc 3 1 700)) = Some (proc 1 6 10000)
   \<and> selected (lowmem_scan arm_kernel default_config
         (example_host [proc 1 6 10000, proc 2 12 50]) 10) = Some (proc 2 12 50)
   \<and> selected_oom_adj (lowmem_scan arm_kernel default_config
         (example_host [proc 1 6 10000, proc 2 12 50]) 10) = 12"
proof -
  let ?s = "first_selected default_config (proc 1 6 10000)"
  let ?h = "example_host [proc 1 6 10000, proc 2 12 50]"
  have s: "selected ?s = Some (proc 1 6 10000)" "selected_oom_adj ?s = 6"
    "selected_tasksize ?s = 10000"
    by (simp_all add: scan_eval)
  have hi: "candidate 0 (proc 2 12 50) = Some (12, 50)"
    and lo: "candidate 0 (proc 3 1 700) = Some (1, 700)"
    by (simp_all add: scan_eval)
  have m: "min_adj_of arm_kernel default_config (other_free_of ?h) (other_file_of ?h) = 0"
    by (simp add: scan_eval)
  have v: "selected (lowmem_scan arm_kernel default_config ?h 10) = Some (proc 2 12 50)"
    by (simp add: scan_eval)
  have "selected (scan_step default_config 10 0 ?s (proc 2 12 50)) = Some (proc 2 12 50)"
    using selection_priority_never_decreases
      [of ?s default_config 10 0 "proc 2 12 50" 12 50 arm_kernel ?h "proc 2 12 50"] s hi
    by (simp add: word_sless_alt)
  moreover have "selected (scan_step default_config 10 0 ?s (proc 3 1 700)) = Some (proc 1 6 10000)"
    using selection_priority_never_decreases
      [of ?s default_config 10 0 "proc 3 1 700" 1 700 arm_kernel ?h "proc 2 12 50"] s lo
    by (simp add: word_sless_alt)
  moreover have "selected_oom_adj (lowmem_scan arm_kernel default_config ?h 10) = 12"
    using selection_priority_never_decreases
      [of ?s default_config 10 0 "proc 2 12 50" 12 50 arm_kernel ?h "proc 2 12 50"] v m hi
    by simp
  ultimately show ?thesis using s hi lo v by simp
qed

lemma scan_step_legacy_equal:
  assumes "lowmem_oldmethod cfg \<noteq> 0" and "selected s = Some q"
    and "candidate min_adj p = Some (selected_oom_adj s, t)"
  shows "selected (scan_step cfg n min_adj s p) = (if selected_tasksize s <s t then Some p else Some q)"
    and "selected_oom_adj (scan_step cfg n min_adj s p) = selected_oom_adj s"
    and "selected_tasksize (scan_step cfg n min_adj s p)
           = (if selected_tasksize s <s t then t else selected_tasksize s)"
  using assms
  by (auto simp: candidate_def scan_step_def Let_def word_sless_alt word_sle_eq
      split: option.splits if_splits)

text \<open>
  C7. In legacy mode, a candidate whose priority equals that of the selection
  replaces it exactly when its footprint is strictly greater; so of two candidates
  of equal priority with footprints 100 and 250 the 250-page one is chosen, in
  either order.
\<close>

theorem legacy_prefers_larger_footprint:
  assumes "lowmem_oldmethod cfg \<noteq> 0"
  shows "(selected s = Some q \<and> candidate min_adj p = Some (selected_oom_adj s, t) \<longrightarrow>
            selected (scan_step cfg n min_adj s p)
              = (if selected_tasksize s <s t then Some p else Some q))
         \<and> (selected s0 = None \<and> candidate min_adj a = Some (oa, 100)
              \<and> candidate min_adj b = Some (oa, 250) \<longrightarrow>
            selected (scan_loop cfg n min_adj s0 [a, b]) = Some b
            \<and> selected (scan_loop cfg n min_adj s0 [b, a]) = Some b)"
proof (intro conjI impI)
  assume "selected s = Some q \<and> candidate min_adj p = Some (selected_oom_adj s, t)"
  with assms show "selected (scan_step cfg n min_adj s p)
      = (if selected_tasksize s <s t then Some p else Some q)"
    by (simp add: scan_step_legacy_equal)
next
  assume h: "selected s0 = None \<and> candidate min_adj a = Some (oa, 100)
      \<and> candidate min_adj b = Some (oa, 250)"
  let ?sa = "scan_step cfg n min_adj s0 a" and ?sb = "scan_step cfg n min_adj s0 b"
  from h have sa: "selected ?sa = Some a" "selected_oom_adj ?sa = oa" "selected_tasksize ?sa = 100"
    by (simp_all add: scan_step_first)
  from h have sb: "selected ?sb = Some b" "selected_oom_adj ?sb = oa" "selected_tasksize ?sb = 250"
    by (simp_all add: scan_step_first)
  from h have cb: "candidate min_adj b = Some (selected_oom_adj ?sa, 250)"
    and ca: "candidate min_adj a = Some (selected_oom_adj ?sb, 100)"
    by (simp_all add: sa sb)
  show "selected (scan_loop cfg n min_adj s0 [a, b]) = Some b"
    using scan_step_legacy_equal(1) [OF assms sa(1) cb, of n]
    by (simp add: sa word_sless_alt)
  show "selected (scan_loop cfg n min_adj s0 [b, a]) = Some b"
    using scan_step_legacy_equal(1) [OF assms sb(1) ca, of n]
    by (simp add: sb word_sless_alt)
qed

text \<open>Priority 6 twice, footprints 100 and 250, with the legacy tie-break on.\<close>

theorem legacy_prefers_larger_footprint_witness:
  "lowmem_oldmethod legacy_config = 1
   \<and> selected (first_selected legacy_config (proc 1 6 100)) = Some (proc 1 6 100)
   \<and> candidate 0 (proc 2 6 250)
        = Some (selected_oom_adj (first_selected legacy_config (proc 1 6 100)), 250)
   \<and> selected (scan_step legacy_config 10 0 (first_selected legacy_config (proc 1 6 100))
        (proc 2 6 250)) = Some (proc 2 6 250)
   \<and> candidate 0 (proc 1 6 100) = Some (6, 100)
   \<and> selected (scan_loop legacy_config 10 0 (scan_init arm_kernel (example_host []) 0)
        [proc 1 6 100, proc 2 6 250]) = Some (proc 2 6 250)
   \<and> selected (scan_loop legacy_config 10 0 (scan_init arm_kernel (example_host []) 0)
        [proc 2 6 250, proc 1 6 100]) = Some (proc 2 6 250)"
proof -
  let ?s = "first_selected legacy_config (proc 1 6 100)"
  let ?init = "scan_init arm_kernel (example_host []) 0"
  have l: "lowmem_oldmethod legacy_config = 1" "lowmem_oldmethod legacy_config \<noteq> 0"
    by (simp_all add: legacy_config_def)
  have s: "selected ?s = Some (proc 1 6 100)" "selected_oom_adj ?s = 6" "selected_tasksize ?s = 100"
    by (simp_all add: scan_eval legacy_config_def)
  have c: "candidate 0 (proc 2 6 250) = Some (6, 250)" "candidate 0 (proc 1 6 100) = Some (6, 100)"
    by (simp_all add: scan_eval)
  have s0: "selected ?init = None"
    by (simp add: scan_init_def)
  note t = legacy_prefers_larger_footprint [OF l(2),
      of ?s "proc 1 6 100" 0 "proc 2 6 250" 250 10 ?init "proc 1 6 100" 6 "proc 2 6 250"]
  from t s c s0 show ?thesis
    by (simp add: l word_sless_alt)
qed

subsection \<open>The kill\<close>

text \<open>
  C5. When the call is not held back by the guard, pages are requested, a tier
  matches and the scan selects a task, the call records that task as pending with
  the deadline \<open>jiffies + HZ\<close> (one second of ticks), sends it the kill signal and
  returns at once the reclaimable estimate, which is the sum of the active and
  inactive anonymous and file page counts, minus the footprint of that task.
\<close>

theorem kill_arms_guard_and_reports:
  assumes "\<not> death_outstanding K h st" and "\<not> nr \<le>s 0"
    and "min_adj_of K cfg (other_free_of h) (other_file_of h) \<noteq> OOM_ADJUST_MAX K + 1"
    and "selected (lowmem_scan K cfg h nr) = Some p"
  shows "lowmem_shrink K cfg h st nr =
           \<lparr>ret = global_page_state h NR_ACTIVE_ANON + global_page_state h NR_ACTIVE_FILE
                  + global_page_state h NR_INACTIVE_ANON + global_page_state h NR_INACTIVE_FILE
                  - selected_tasksize (lowmem_scan K cfg h nr),
            guard = \<lparr>lowmem_deathpending = Some (task p),
                     lowmem_deathpending_timeout = jiffies h + HZ K\<rparr>,
            sigkill = Some (task p)\<rparr>
         \<and> p \<in> set (processes h)
         \<and> map_option rss (mm p) = Some (selected_tasksize (lowmem_scan K cfg h nr))"
  using lowmem_shrink_kill [OF assms] lowmem_scan_selected(1,2) [OF assms(4)]
  by (simp add: rem_of_def)

text \<open>
  At tick 5000 with the counters 400, 300, 200 and 100, the task of priority 12 and
  footprint 500 is killed: the deadline is 5100 and the call returns 500.
\<close>

theorem kill_arms_guard_and_reports_witness:
  "\<not> death_outstanding arm_kernel (busy_host [proc 1 6 300, proc 2 12 500]) idle
   \<and> min_adj_of arm_kernel default_config 0 0 = 0
   \<and> selected (lowmem_scan arm_kernel default_config
        (busy_host [proc 1 6 300, proc 2 12 500]) 10) = Some (proc 2 12 500)
   \<and> global_page_state (busy_host [proc 1 6 300, proc 2 12 500]) NR_ACTIVE_ANON = 400
   \<and> global_page_state (busy_host [proc 1 6 300, proc 2 12 500]) NR_ACTIVE_FILE = 300
   \<and> global_page_state (busy_host [proc 1 6 300, proc 2 12 500]) NR_INACTIVE_ANON = 200
   \<and> global_page_state (busy_host [proc 1 6 300, proc 2 12 500]) NR_INACTIVE_FILE = 100
   \<and> lowmem_shrink arm_kernel default_config (busy_host [proc 1 6 300, proc 2 12 500]) idle 10
      = \<lparr>ret = 500,
         guard = \<lparr>lowmem_deathpending = Some 2, lowmem_deathpending_timeout = 5100\<rparr>,
         sigkill = Some 2\<rparr>"
proof -
  let ?h = "busy_host [proc 1 6 300, proc 2 12 500]"
  have a: "\<not> death_outstanding arm_kernel ?h idle"
    by (simp add: death_outstanding_def idle_def)
  have b: "\<not> (10 :: c_int) \<le>s 0"
    by (simp add: word_sle_eq)
  have f: "other_free_of ?h = 0" "other_file_of ?h = 0" "jiffies ?h = 5000"
    by (simp_all add: lru_eval)
  have g: "global_page_state ?h NR_ACTIVE_ANON = 400" "global_page_state ?h NR_ACTIVE_FILE = 300"
    "global_page_state ?h NR_INACTIVE_ANON = 200" "global_page_state ?h NR_INACTIVE_FILE = 100"
    by (simp_all add: busy_host_def lru_counters_def)
  have m: "min_adj_of arm_kernel default_config 0 0 = 0"
    by (simp add: scan_eval)
  have c: "min_adj_of arm_kernel default_config (other_free_of ?h) (other_file_of ?h)
      \<noteq> OOM_ADJUST_MAX arm_kernel + 1"
    unfolding f m by (simp add: arm_kernel_def)
  have d: "selected (lowmem_scan arm_kernel default_config ?h 10) = Some (proc 2 12 500)"
    by (simp add: lru_eval)
  have t: "map_option rss (mm (proc 2 12 500)) = Some 500" "task (proc 2 12 500) = 2"
    by (simp_all add: proc_def)
  from kill_arms_guard_and_reports [OF a b c d] t f
  have "lowmem_shrink arm_kernel default_config ?h idle 10
      = \<lparr>ret = 500,
         guard = \<lparr>lowmem_deathpending = Some 2, lowmem_deathpending_timeout = 5100\<rparr>,
         sigkill = Some 2\<rparr>"
    unfolding g by (simp add: arm_kernel_def)
  with a m d g show ?thesis by simp
qed

subsection \<open>The value returned\<close>

lemma sint_sub_nonneg:
  fixes a b :: "32 word"
  assumes "0 \<le>s a" and "0 <s b"
  shows "sint (a - b) = sint a - sint b"
proof -
  have a: "0 \<le> sint a" "sint a < 2 ^ 31"
    using assms(1) sint_lt [of a] by (simp_all add: word_sle_eq)
  have b: "0 < sint b" "sint b < 2 ^ 31"
    using assms(2) sint_lt [of b] by (simp_all add: word_sless_alt)
  have "sint (a - b) = signed_take_bit 31 (sint a - sint b)"
    by (simp add: sint_word_ariths)
  also have "\<dots> = sint a - sint b"
    using a b by (intro signed_take_bit_int_eq_self) simp_all
  finally show ?thesis .
qed

text \<open>
  C9, as the source has it. The value returned is a signed \<open>int\<close>. Without a kill
  it is 0 or the sum of the active and inactive anonymous and file page counts. With
  a kill it is that sum minus the footprint of the killed task, a positive
  \<open>int\<close>; when the sum is not negative as an \<open>int\<close> the difference does not
  wrap, and it is non-negative exactly when the footprint does not exceed the sum.
  Nothing bounds the footprint by the sum.
\<close>

theorem ret_sign_on_kill:
  "(sigkill (lowmem_shrink K cfg h st nr) = None \<longrightarrow>
      ret (lowmem_shrink K cfg h st nr) = 0
      \<or> ret (lowmem_shrink K cfg h st nr) =
           global_page_state h NR_ACTIVE_ANON + global_page_state h NR_ACTIVE_FILE
           + global_page_state h NR_INACTIVE_ANON + global_page_state h NR_INACTIVE_FILE)
   \<and> (sigkill (lowmem_shrink K cfg h st nr) = Some t \<longrightarrow>
      (\<exists>p\<in>set (processes h). \<exists>m. task p = t \<and> mm p = Some m \<and> 0 <s rss m
         \<and> ret (lowmem_shrink K cfg h st nr) =
              global_page_state h NR_ACTIVE_ANON + global_page_state h NR_ACTIVE_FILE
              + global_page_state h NR_INACTIVE_ANON + global_page_state h NR_INACTIVE_FILE
              - rss m
         \<and> (0 \<le>s global_page_state h NR_ACTIVE_ANON + global_page_state h NR_ACTIVE_FILE
                  + global_page_state h NR_INACTIVE_ANON + global_page_state h NR_INACTIVE_FILE
              \<longrightarrow>
              sint (ret (lowmem_shrink K cfg h st nr)) =
                sint (global_page_state h NR_ACTIVE_ANON + global_page_state h NR_ACTIVE_FILE
                      + global_page_state h NR_INACTIVE_ANON
                      + global_page_state h NR_INACTIVE_FILE)
                - sint (rss m)
              \<and> (0 \<le>s ret (lowmem_shrink K cfg h st nr) \<longleftrightarrow>
                   rss m \<le>s global_page_state h NR_ACTIVE_ANON
                           + global_page_state h NR_ACTIVE_FILE
                           + global_page_state h NR_INACTIVE_ANON
                           + global_page_state h NR_INACTIVE_FILE))))"
proof -
  let ?r = "lowmem_shrink K cfg h st nr" and ?S = "lowmem_scan K cfg h nr"
  let ?sum = "global_page_state h NR_ACTIVE_ANON + global_page_state h NR_ACTIVE_FILE
      + global_page_state h NR_INACTIVE_ANON + global_page_state h NR_INACTIVE_FILE"
  have sum: "rem_of h = ?sum"
    by (simp add: rem_of_def)
  have none: "ret ?r = 0 \<or> ret ?r = ?sum" if "sigkill ?r = None"
    using that lowmem_shrink_cases [of K cfg h st nr] unfolding sum by auto
  have kill: "\<exists>p\<in>set (processes h). \<exists>m. task p = t \<and> mm p = Some m \<and> 0 <s rss m
      \<and> ret ?r = ?sum - rss m
      \<and> (0 \<le>s ?sum \<longrightarrow> sint (ret ?r) = sint ?sum - sint (rss m)
            \<and> (0 \<le>s ret ?r \<longleftrightarrow> rss m \<le>s ?sum))"
    if k: "sigkill ?r = Some t"
  proof -
    from k lowmem_shrink_cases [of K cfg h st nr]
    obtain p where p: "selected ?S = Some p" "task p = t"
      and r: "ret ?r = ?sum - selected_tasksize ?S"
      unfolding sum by auto
    from lowmem_scan_selected [OF p(1)]
    obtain m where m: "p \<in> set (processes h)" "mm p = Some m" "rss m = selected_tasksize ?S"
      and pos: "0 <s selected_tasksize ?S"
      by auto
    have sgn: "sint (ret ?r) = sint ?sum - sint (rss m)
        \<and> (0 \<le>s ret ?r \<longleftrightarrow> rss m \<le>s ?sum)" if nn: "0 \<le>s ?sum"
    proof -
      from nn pos have s: "sint (?sum - selected_tasksize ?S) = sint ?sum - sint (selected_tasksize ?S)"
        by (rule sint_sub_nonneg)
      then show ?thesis
        unfolding r m(3) word_sle_eq by simp
    qed
    from m p(2) r pos sgn show ?thesis
      by (intro bexI [of _ p] exI [of _ m]) simp_all
  qed
  from none kill show ?thesis by blast
qed

text \<open>
  With the counters 40, 30, 20 and 10, killing a task of 60 pages returns 40, and a
  query returns 100.
\<close>

theorem ret_sign_on_kill_witness:
  "sigkill (lowmem_shrink arm_kernel default_config (tight_host [proc 1 12 60]) idle 1) = Some 1
   \<and> global_page_state (tight_host [proc 1 12 60]) NR_ACTIVE_ANON = 40
   \<and> global_page_state (tight_host [proc 1 12 60]) NR_ACTIVE_FILE = 30
   \<and> global_page_state (tight_host [proc 1 12 60]) NR_INACTIVE_ANON = 20
   \<and> global_page_state (tight_host [proc 1 12 60]) NR_INACTIVE_FILE = 10
   \<and> ret (lowmem_shrink arm_kernel default_config (tight_host [proc 1 12 60]) idle 1) = 40
   \<and> sint (ret (lowmem_shrink arm_kernel default_config (tight_host [proc 1 12 60]) idle 1)) = 40
   \<and> sigkill (lowmem_shrink arm_kernel default_config (tight_host [proc 1 12 60]) idle 0) = None
   \<and> ret (lowmem_shrink arm_kernel default_config (tight_host [proc 1 12 60]) idle 0) = 100"
proof -
  let ?h = "tight_host [proc 1 12 60]"
  let ?r = "lowmem_shrink arm_kernel default_config ?h idle 1"
  let ?q = "lowmem_shrink arm_kernel default_config ?h idle 0"
  have k: "sigkill ?r = Some 1"
    by (simp add: lru_eval)
  have g: "global_page_state ?h NR_ACTIVE_ANON = 40" "global_page_state ?h NR_ACTIVE_FILE = 30"
    "global_page_state ?h NR_INACTIVE_ANON = 20" "global_page_state ?h NR_INACTIVE_FILE = 10"
    by (simp_all add: tight_host_def lru_counters_def)
  have ps: "processes ?h = [proc 1 12 60]"
    by (simp add: tight_host_def)
  have q: "sigkill ?q = None"
    by (simp add: lru_eval)
  have nn: "(0 :: c_int) \<le>s 40 + 30 + 20 + 10"
    by (simp add: word_sle_eq)
  from ret_sign_on_kill [of arm_kernel default_config ?h idle 1 1] k
  obtain p m where p: "p \<in> set (processes ?h)" and m: "mm p = Some m"
    and d: "ret ?r = 40 + 30 + 20 + 10 - rss m"
    and s: "0 \<le>s (40 :: c_int) + 30 + 20 + 10 \<longrightarrow> sint (ret ?r) = sint ((40 :: c_int) + 30 + 20 + 10) - sint (rss m)"
    unfolding g by blast
  from p have "p = proc 1 12 60"
    unfolding ps by simp
  with m have "rss m = 60"
    by (auto simp: proc_def)
  with d s nn have 1: "ret ?r = 40" "sint (ret ?r) = 40"
    by simp_all
  from ret_sign_on_kill [of arm_kernel default_config ?h idle 0 1] q
  have "ret ?q = 0 \<or> ret ?q = 40 + 30 + 20 + 10"
    unfolding g by blast
  moreover have "ret ?q \<noteq> 0"
    by (simp add: lru_eval)
  ultimately have 2: "ret ?q = 100"
    by auto
  from k g q 1 2 show ?thesis by simp
qed

text \<open>
  C9 as stated fails: with the counters 40, 30, 20 and 10 (100 reclaimable pages),
  the task of footprint 500 is killed and the call returns -400.
\<close>

theorem ret_negative_counterexample:
  "global_page_state (tight_host [proc 1 12 500]) NR_ACTIVE_ANON
     + global_page_state (tight_host [proc 1 12 500]) NR_ACTIVE_FILE
     + global_page_state (tight_host [proc 1 12 500]) NR_INACTIVE_ANON
     + global_page_state (tight_host [proc 1 12 500]) NR_INACTIVE_FILE = 100
   \<and> sigkill (lowmem_shrink arm_kernel default_config (tight_host [proc 1 12 500]) idle 1) = Some 1
   \<and> sint (ret (lowmem_shrink arm_kernel default_config (tight_host [proc 1 12 500]) idle 1)) = - 400"
  by (simp add: lru_eval)

subsection \<open>The guard\<close>

text \<open>
  C2, as the source has it. A call that arrives while a task is pending and the
  deadline has not passed returns 0, sends no signal and leaves the guard as it is,
  whatever the page counters and the process list hold: it does not look at them.
\<close>

theorem blocked_call_returns_zero:
  assumes "death_outstanding K h st"
  shows "lowmem_shrink K cfg (h\<lparr>global_page_state := g, processes := ps\<rparr>) st nr
           = \<lparr>ret = 0, guard = st, sigkill = None\<rparr>
         \<and> lowmem_shrink K cfg h st nr = \<lparr>ret = 0, guard = st, sigkill = None\<rparr>"
proof -
  from assms have "death_outstanding K (h\<lparr>global_page_state := g, processes := ps\<rparr>) st"
    by (simp add: death_outstanding_def)
  then show ?thesis
    using assms by (simp add: lowmem_shrink_blocked)
qed

text \<open>Task 42 pending until tick 5050, a call at tick 5000.\<close>

theorem blocked_call_returns_zero_witness:
  "death_outstanding arm_kernel (example_host [proc 1 12 500]) (awaiting 42 5050)
   \<and> lowmem_shrink arm_kernel default_config (example_host [proc 1 12 500]) (awaiting 42 5050) 5
        = \<lparr>ret = 0, guard = awaiting 42 5050, sigkill = None\<rparr>"
proof -
  have "death_outstanding arm_kernel (example_host [proc 1 12 500]) (awaiting 42 5050)"
    by (simp add: death_outstanding_def arm_kernel_def example_host_def awaiting_def word_sle_eq)
  then show ?thesis
    using blocked_call_returns_zero [of arm_kernel "example_host [proc 1 12 500]" "awaiting 42 5050"]
    by simp
qed

text \<open>
  C2 as stated fails: the blocked call returns 0 while the reclaimable estimate is
  1000.
\<close>

theorem blocked_call_estimate_counterexample:
  "death_outstanding arm_kernel (example_host [proc 1 12 500]) (awaiting 42 5050)
   \<and> rem_of (example_host [proc 1 12 500]) = 1000
   \<and> ret (lowmem_shrink arm_kernel default_config (example_host [proc 1 12 500])
        (awaiting 42 5050) 5) = 0"
  by (simp add: shrink_eval awaiting_def)

text \<open>
  C6, as the source has it. A call with \<open>nr_to_scan \<le> 0\<close> sends no signal and
  leaves the guard as it is; it returns the sum of the active and inactive anonymous
  and file page counts, unless a task is pending and its deadline has not passed,
  when it returns 0. A second such call on the same host returns the same result.
\<close>

theorem query_selects_nothing:
  assumes "nr \<le>s 0"
  shows "sigkill (lowmem_shrink K cfg h st nr) = None
         \<and> guard (lowmem_shrink K cfg h st nr) = st
         \<and> ret (lowmem_shrink K cfg h st nr) =
             (if death_outstanding K h st then 0
              else global_page_state h NR_ACTIVE_ANON + global_page_state h NR_ACTIVE_FILE
                   + global_page_state h NR_INACTIVE_ANON + global_page_state h NR_INACTIVE_FILE)
         \<and> lowmem_shrink K cfg h (guard (lowmem_shrink K cfg h st nr)) nr
             = lowmem_shrink K cfg h st nr"
proof (cases "death_outstanding K h st")
  case True
  then show ?thesis by (simp add: lowmem_shrink_blocked)
next
  case False
  with assms have "lowmem_shrink K cfg h st nr = \<lparr>ret = rem_of h, guard = st, sigkill = None\<rparr>"
    by (simp add: lowmem_shrink_query)
  with False show ?thesis by (simp add: rem_of_def)
qed

text \<open>A query with nothing pending returns 1000; with task 42 pending it returns 0.\<close>

theorem query_selects_nothing_witness:
  "(0 :: c_int) \<le>s 0
   \<and> lowmem_shrink arm_kernel default_config (example_host [proc 1 12 500]) idle 0
        = \<lparr>ret = 1000, guard = idle, sigkill = None\<rparr>
   \<and> lowmem_shrink arm_kernel default_config (example_host [proc 1 12 500]) (awaiting 42 5100) 0
        = \<lparr>ret = 0, guard = awaiting 42 5100, sigkill = None\<rparr>"
proof -
  let ?h = "example_host [proc 1 12 500]"
  have z: "(0 :: c_int) \<le>s 0" by simp
  have a: "\<not> death_outstanding arm_kernel ?h idle"
    by (simp add: death_outstanding_def idle_def)
  have b: "death_outstanding arm_kernel ?h (awaiting 42 5100)"
    by (simp add: death_outstanding_def arm_kernel_def example_host_def awaiting_def word_sle_eq)
  have g: "global_page_state ?h NR_ACTIVE_ANON + global_page_state ?h NR_ACTIVE_FILE
      + global_page_state ?h NR_INACTIVE_ANON + global_page_state ?h NR_INACTIVE_FILE = 1000"
    by (simp add: example_host_def pages_def)
  have "lowmem_shrink arm_kernel default_config ?h idle 0 = \<lparr>ret = 1000, guard = idle, sigkill = None\<rparr>"
    using query_selects_nothing [OF z, of arm_kernel default_config ?h idle] a g
    by (cases "lowmem_shrink arm_kernel default_config ?h idle 0") simp
  moreover have "lowmem_shrink arm_kernel default_config ?h (awaiting 42 5100) 0
      = \<lparr>ret = 0, guard = awaiting 42 5100, sigkill = None\<rparr>"
    using query_selects_nothing [OF z, of arm_kernel default_config ?h "awaiting 42 5100"] b
    by (cases "lowmem_shrink arm_kernel default_config ?h (awaiting 42 5100) 0") simp
  ultimately show ?thesis using z by simp
qed

text \<open>
  C6 as stated fails: a query made while task 7 is pending returns 0, not the
  estimate 1000.
\<close>

theorem query_estimate_counterexample:
  "(0 :: c_int) \<le>s 0
   \<and> rem_of (example_host []) = 1000
   \<and> ret (lowmem_shrink arm_kernel default_config (example_host []) (awaiting 7 5100) 0) = 0"
  by (simp add: shrink_eval awaiting_def)

subsection \<open>The histogram of priorities\<close>

lemma above_19_iff: "(-1 <s oa \<and> \<not> nat (sint oa) < 20) \<longleftrightarrow> 19 <s (oa :: c_int)"
  by (auto simp: word_sless_alt)

lemma count_oom_oob:
  assumes "ooms_seen s = Some buf" and "length buf = 20"
  shows "ooms_oob (count_oom oa s) \<longleftrightarrow> ooms_oob s \<or> 19 <s oa"
    and "\<exists>buf'. ooms_seen (count_oom oa s) = Some buf' \<and> length buf' = 20"
  using assms above_19_iff [of oa]
  by (auto simp: count_oom_def)

lemma count_oom_none:
  assumes "ooms_seen s = None"
  shows "count_oom oa s = s"
  using assms by (simp add: count_oom_def)

lemma scan_step_ooms:
  "ooms_seen (scan_step cfg n min_adj s p)
     = (case observed p of None \<Rightarrow> ooms_seen s | Some oa \<Rightarrow> ooms_seen (count_oom oa s))"
  "ooms_oob (scan_step cfg n min_adj s p)
     = (case observed p of None \<Rightarrow> ooms_oob s | Some oa \<Rightarrow> ooms_oob (count_oom oa s))"
  by (auto simp: scan_step_def observed_def Let_def split: option.splits)

lemma scan_loop_oob:
  assumes "ooms_seen s = Some buf" and "length buf = 20"
  shows "ooms_oob (scan_loop cfg n min_adj s ps)
           \<longleftrightarrow> ooms_oob s \<or> (\<exists>p\<in>set ps. \<exists>oa. observed p = Some oa \<and> 19 <s oa)"
  using assms
proof (induction ps arbitrary: s buf)
  case Nil
  then show ?case by simp
next
  case (Cons p ps)
  let ?s = "scan_step cfg n min_adj s p"
  show ?case
  proof (cases "observed p")
    case None
    then have "ooms_seen ?s = Some buf" "ooms_oob ?s = ooms_oob s"
      using Cons.prems by (simp_all add: scan_step_ooms)
    with Cons.IH [of ?s buf] Cons.prems None show ?thesis by simp
  next
    case (Some oa)
    from count_oom_oob [OF Cons.prems, of oa] Some
    obtain buf' where b: "ooms_seen ?s = Some buf'" "length buf' = 20"
      and o: "ooms_oob ?s \<longleftrightarrow> ooms_oob s \<or> 19 <s oa"
      by (auto simp: scan_step_ooms)
    from Cons.IH [OF b] o Some show ?thesis by auto
  qed
qed

lemma scan_loop_oob_none:
  assumes "ooms_seen s = None"
  shows "ooms_oob (scan_loop cfg n min_adj s ps) = ooms_oob s"
  using assms
proof (induction ps arbitrary: s)
  case Nil
  then show ?case by simp
next
  case (Cons p ps)
  let ?s = "scan_step cfg n min_adj s p"
  from Cons.prems have "ooms_seen ?s = None" "ooms_oob ?s = ooms_oob s"
    by (simp_all add: scan_step_ooms count_oom_none split: option.splits)
  with Cons.IH [of ?s] show ?case by simp
qed

text \<open>
  C10. The increment of the histogram is guarded by \<open>oom_adj > -1\<close> alone: a
  priority of -1 or less writes nothing, one from 0 to 19 increments its counter, and
  one above 19 is written outside the 20 counters. So, when the buffer was
  allocated, a scan writes inside the buffer throughout if and only if every
  non-negative priority among the tasks it looks at is at most 19; when the
  allocation failed, nothing is written at all.
\<close>

theorem ooms_seen_write_in_bounds:
  "(ooms_seen s = Some buf \<and> length buf = 20 \<and> observed p = Some oa \<longrightarrow>
      (ooms_oob (scan_step cfg n min_adj s p) \<longleftrightarrow> ooms_oob s \<or> 19 <s oa)
      \<and> (\<not> -1 <s oa \<longrightarrow> ooms_seen (scan_step cfg n min_adj s p) = Some buf)
      \<and> (-1 <s oa \<and> oa \<le>s 19 \<longrightarrow>
           ooms_seen (scan_step cfg n min_adj s p)
             = Some (buf[nat (sint oa) := buf ! nat (sint oa) + 1])))
   \<and> (kzalloc_ok h \<longrightarrow>
        (\<not> ooms_oob (lowmem_scan K cfg h nr)
           \<longleftrightarrow> (\<forall>q\<in>set (processes h). \<forall>a. observed q = Some a \<and> -1 <s a \<longrightarrow> a \<le>s 19)))
   \<and> (\<not> kzalloc_ok h \<longrightarrow> \<not> ooms_oob (lowmem_scan K cfg h nr))"
proof (intro conjI impI)
  assume a: "ooms_seen s = Some buf \<and> length buf = 20 \<and> observed p = Some oa"
  then show "ooms_oob (scan_step cfg n min_adj s p) \<longleftrightarrow> ooms_oob s \<or> 19 <s oa"
    using count_oom_oob(1) [of s buf oa] by (simp add: scan_step_ooms)
  from a show "ooms_seen (scan_step cfg n min_adj s p) = Some buf" if "\<not> -1 <s oa"
    using that by (simp add: scan_step_ooms count_oom_def)
  from a show "ooms_seen (scan_step cfg n min_adj s p)
      = Some (buf[nat (sint oa) := buf ! nat (sint oa) + 1])" if "-1 <s oa \<and> oa \<le>s 19"
    using that by (auto simp: scan_step_ooms count_oom_def word_sle_eq)
next
  assume k: "kzalloc_ok h"
  let ?m = "min_adj_of K cfg (other_free_of h) (other_file_of h)"
  from k have "ooms_seen (scan_init K h ?m) = Some (replicate 20 0)" "\<not> ooms_oob (scan_init K h ?m)"
    by (simp_all add: scan_init_def)
  from scan_loop_oob [OF this(1), of cfg nr ?m "processes h"] this(2)
  have "ooms_oob (lowmem_scan K cfg h nr)
      \<longleftrightarrow> (\<exists>q\<in>set (processes h). \<exists>a. observed q = Some a \<and> 19 <s a)"
    by (simp add: lowmem_scan_def Let_def)
  also have "\<dots> \<longleftrightarrow> \<not> (\<forall>q\<in>set (processes h). \<forall>a. observed q = Some a \<and> -1 <s a \<longrightarrow> a \<le>s 19)"
  proof -
    have "19 <s a \<longleftrightarrow> -1 <s a \<and> \<not> a \<le>s 19" for a :: c_int
      by (auto simp: word_sless_alt word_sle_eq)
    then show ?thesis by blast
  qed
  finally show "\<not> ooms_oob (lowmem_scan K cfg h nr)
      \<longleftrightarrow> (\<forall>q\<in>set (processes h). \<forall>a. observed q = Some a \<and> -1 <s a \<longrightarrow> a \<le>s 19)"
    by blast
next
  assume k: "\<not> kzalloc_ok h"
  let ?m = "min_adj_of K cfg (other_free_of h) (other_file_of h)"
  from k have "ooms_seen (scan_init K h ?m) = None" "\<not> ooms_oob (scan_init K h ?m)"
    by (simp_all add: scan_init_def)
  from scan_loop_oob_none [OF this(1), of cfg nr ?m "processes h"] this(2)
  show "\<not> ooms_oob (lowmem_scan K cfg h nr)"
    by (simp add: lowmem_scan_def Let_def)
qed

text \<open>
  A task of priority 25 makes the scan write outside the buffer; one of priority 19
  increments the last counter.
\<close>

theorem ooms_seen_write_in_bounds_witness:
  "kzalloc_ok (example_host [proc 1 25 10])
   \<and> observed (proc 1 25 10) = Some 25
   \<and> ooms_oob (lowmem_scan arm_kernel default_config (example_host [proc 1 25 10]) 10)
   \<and> observed (proc 2 19 10) = Some 19
   \<and> \<not> ooms_oob (lowmem_scan arm_kernel default_config (example_host [proc 2 19 10]) 10)
   \<and> ooms_seen (scan_step default_config 10 0 (scan_init arm_kernel (example_host []) 0)
        (proc 2 19 10))
      = Some [0, 0, 0, 0, 0, 0, 0, 0, 0, 0, 0, 0, 0, 0, 0, 0, 0, 0, 0, 1]"
proof -
  let ?init = "scan_init arm_kernel (example_host []) 0"
  let ?buf = "replicate 20 (0 :: c_int)"
  let ?hi = "example_host [proc 1 25 10]" and ?ok = "example_host [proc 2 19 10]"
  have k: "kzalloc_ok ?hi" "kzalloc_ok ?ok"
    by (simp_all add: example_host_def)
  have ps: "processes ?hi = [proc 1 25 10]" "processes ?ok = [proc 2 19 10]"
    by (simp_all add: example_host_def)
  have o: "observed (proc 1 25 10) = Some 25" "observed (proc 2 19 10) = Some 19"
    by (simp_all add: observed_def proc_def)
  have i: "ooms_seen ?init = Some ?buf \<and> length ?buf = 20 \<and> observed (proc 2 19 10) = Some 19"
    by (simp add: scan_init_def example_host_def o)
  have c: "\<not> (25 :: c_int) \<le>s 19" "-1 <s (25 :: c_int)" "-1 <s (19 :: c_int) \<and> (19 :: c_int) \<le>s 19"
    by (simp_all add: word_sless_alt word_sle_eq)
  note hi = ooms_seen_write_in_bounds
      [of ?init ?buf "proc 2 19 10" 19 default_config 10 0 ?hi arm_kernel 10]
  note ok = ooms_seen_write_in_bounds
      [of ?init ?buf "proc 2 19 10" 19 default_config 10 0 ?ok arm_kernel 10]
  from hi k(1) have "\<not> ooms_oob (lowmem_scan arm_kernel default_config ?hi 10)
      \<longleftrightarrow> (\<forall>q\<in>set [proc 1 25 10]. \<forall>a. observed q = Some a \<and> -1 <s a \<longrightarrow> a \<le>s 19)"
    unfolding ps by blast
  also have "\<dots> \<longleftrightarrow> False"
    using o(1) c(1,2) by simp
  finally have 1: "ooms_oob (lowmem_scan arm_kernel default_config ?hi 10)"
    by simp
  from ok k(2) have "\<not> ooms_oob (lowmem_scan arm_kernel default_config ?ok 10)
      \<longleftrightarrow> (\<forall>q\<in>set [proc 2 19 10]. \<forall>a. observed q = Some a \<and> -1 <s a \<longrightarrow> a \<le>s 19)"
    unfolding ps by blast
  also have "\<dots> \<longleftrightarrow> True"
    using o(2) c(3) by simp
  finally have 2: "\<not> ooms_oob (lowmem_scan arm_kernel default_config ?ok 10)"
    by simp
  from ok i c(3) have "ooms_seen (scan_step default_config 10 0 ?init (proc 2 19 10))
      = Some (?buf[nat (sint (19 :: c_int)) := ?buf ! nat (sint (19 :: c_int)) + 1])"
    by blast
  also have "nat (sint (19 :: c_int)) = 19"
    by simp
  also have "?buf[19 := ?buf ! 19 + 1] = [0, 0, 0, 0, 0, 0, 0, 0, 0, 0, 0, 0, 0, 0, 0, 0, 0, 0, 0, 1]"
    by code_simp
  finally have 3: "ooms_seen (scan_step default_config 10 0 ?init (proc 2 19 10))
      = Some [0, 0, 0, 0, 0, 0, 0, 0, 0, 0, 0, 0, 0, 0, 0, 0, 0, 0, 0, 1]" .
  from k(1) o 1 2 3 show ?thesis by blast
qed

end
